theory Spec2Isabelle
  imports Complex_Main
begin

section \<open>Python string operations used by the validator\<close>

text \<open>
  Python's \<^verbatim>\<open>s.strip(chars)\<close>: drop every leading and every trailing character that
  occurs in \<open>chars\<close>.
\<close>

definition str_strip :: "string \<Rightarrow> string \<Rightarrow> string" where
  "str_strip chars s =
     rev (dropWhile (\<lambda>c. c \<in> set chars) (rev (dropWhile (\<lambda>c. c \<in> set chars) s)))"

text \<open>
  Python's \<^verbatim>\<open>s.split(sep)\<close> for a separator of one character (the source only splits
  on \<^verbatim>\<open>"?"\<close>, \<^verbatim>\<open>"."\<close> and \<^verbatim>\<open>" "\<close>): the result is never empty, and two adjacent
  separators give an empty piece. The split of the rest is taken once and extended at its
  head; its case \<open>[]\<close> never arises (\<open>str_split_not_Nil\<close> below).
\<close>

fun str_split :: "char \<Rightarrow> string \<Rightarrow> string list" where
  "str_split sep [] = [[]]"
| "str_split sep (c # cs) =
     (case str_split sep cs of
        [] \<Rightarrow> [[c]]
      | w # ws \<Rightarrow> if c = sep then [] # w # ws else (c # w) # ws)"

text \<open>Python's \<^verbatim>\<open>sep.join(ws)\<close>.\<close>

fun str_join :: "string \<Rightarrow> string list \<Rightarrow> string" where
  "str_join sep [] = []"
| "str_join sep [w] = w"
| "str_join sep (w # v # ws) = w @ sep @ str_join sep (v # ws)"

text \<open>Python's \<^verbatim>\<open>pat in s\<close> on strings: \<open>pat\<close> occurs as a contiguous piece of \<open>s\<close>.\<close>

fun str_contains :: "string \<Rightarrow> string \<Rightarrow> bool" where
  "str_contains pat [] = (pat = [])"
| "str_contains pat (c # cs) =
     (take (length pat) (c # cs) = pat \<or> str_contains pat cs)"

text \<open>
  Python's slice \<^verbatim>\<open>xs[-m:]\<close> for \<open>m > 0\<close>: the last \<open>m\<close> elements, the whole list when
  it has fewer.
\<close>

definition slice_last :: "nat \<Rightarrow> 'a list \<Rightarrow> 'a list" where
  "slice_last m xs = drop (length xs - m) xs"

section \<open>Responses and the follow-up format restriction\<close>

record response =
  completion :: string
  status_message :: string
  status_code :: string
  process_time :: "real option"

definition max_words :: nat where
  "max_words = 40"

text \<open>
  The body of the loop of \<^verbatim>\<open>restrict_format_followup_responses\<close>, on the completion
  of one response. The stripped text is only stored back inside the follow-up branch, so
  the completion of any other task, and a completion made of periods only, stay as they
  are.
\<close>

definition restrict_completion :: "string \<Rightarrow> string \<Rightarrow> string" where
  "restrict_completion task_name c =
     (let completion = str_strip ''.'' c in
      if str_contains ''followup'' task_name \<and> length completion > 0 then
        (if CHR ''?'' \<in> set completion then
           (let completion' =
                  last (str_split (CHR ''.'') (hd (str_split (CHR ''?'') completion)))
            in str_join '' '' (slice_last max_words (str_split (CHR '' '') completion')) @ ''?'')
         else
           (let completion' =
                  last (str_split (CHR ''.'') (last (str_split (CHR ''.'') completion)))
            in str_join '' '' (slice_last max_words (str_split (CHR '' '') completion'))))
      else c)"

text \<open>The function mutates each response in place; the model returns the new list.\<close>

definition restrict_format_followup_responses :: "response list \<Rightarrow> string \<Rightarrow> response list" where
  "restrict_format_followup_responses responses task_name =
     map (\<lambda>r. r\<lparr>completion := restrict_completion task_name (completion r)\<rparr>) responses"

text \<open>
  The word cap shared by both branches of \<open>restrict_completion\<close>: the last \<open>max_words\<close>
  space-separated words, joined by single spaces again.
\<close>

definition cap_words :: "string \<Rightarrow> string" where
  "cap_words t = str_join '' '' (slice_last max_words (str_split (CHR '' '') t))"

section \<open>Exceptions and tensors\<close>

datatype exn =
    ValueError string
  | IndexError string
  | RuntimeError string
  | Exception string

text \<open>
  One-dimensional float tensors are lists of reals: the model computes with exact real
  arithmetic, not with 32-bit floats. An in-place elementwise update (\<^verbatim>\<open>+=\<close>, \<^verbatim>\<open>*=\<close>)
  keeps the shape of the updated tensor; the other operand must have the same length or
  length one (broadcast), otherwise torch raises.
\<close>

definition inplace :: "(real \<Rightarrow> real \<Rightarrow> real) \<Rightarrow> real list \<Rightarrow> real list \<Rightarrow> exn + real list" where
  "inplace f self other =
     (if length other = length self then Inr (map2 f self other)
      else if length other = 1 then Inr (map (\<lambda>x. f x (hd other)) self)
      else Inl (RuntimeError ''output shape does not match the broadcast shape''))"

text \<open>The three loops of \<^verbatim>\<open>compute_rewards\<close> each fold one in-place operation over
  the outputs of their functions, in order; the first failure ends the call.\<close>

fun accumulate :: "(real \<Rightarrow> real \<Rightarrow> real) \<Rightarrow> real list \<Rightarrow> real list list \<Rightarrow> exn + real list" where
  "accumulate f rewards [] = Inr rewards"
| "accumulate f rewards (v # vs) =
     (case inplace f rewards v of
        Inl e \<Rightarrow> Inl e
      | Inr rewards' \<Rightarrow> accumulate f rewards' vs)"

text \<open>
  \<^verbatim>\<open>self.scatter(0, index, src)\<close> on one-dimensional tensors: a copy of \<open>self\<close> in which
  position \<open>index[i]\<close> holds \<open>src[i]\<close>. The index may not be longer than the source and
  every index must be a position of \<open>self\<close>. (With a repeated index torch does not say
  which write wins; the model lets the later one win, and the sampled uids never repeat.)
\<close>

definition scatter :: "real list \<Rightarrow> nat list \<Rightarrow> real list \<Rightarrow> exn + real list" where
  "scatter self index src =
     (if length src < length index then
        Inl (RuntimeError ''index is larger than src'')
      else if list_ex (\<lambda>i. length self \<le> i) index then
        Inl (RuntimeError ''index out of bounds'')
      else Inr (fold (\<lambda>(i, v) t. t[i := v]) (zip index src) self))"

text \<open>
  \<^verbatim>\<open>rewards.argmax(dim=0)\<close>: the position of the first maximal value; on an empty tensor
  torch raises.
\<close>

fun argmax_from :: "nat \<Rightarrow> real \<Rightarrow> nat \<Rightarrow> real list \<Rightarrow> nat" where
  "argmax_from best_i best_v i [] = best_i"
| "argmax_from best_i best_v i (x # xs) =
     (if best_v < x then argmax_from i x (Suc i) xs
      else argmax_from best_i best_v (Suc i) xs)"

definition argmax :: "real list \<Rightarrow> exn + nat" where
  "argmax xs =
     (case xs of
        [] \<Rightarrow> Inl (IndexError ''argmax(): Expected reduction dim 0 to have non-zero size'')
      | x # xs' \<Rightarrow> Inr (argmax_from 0 x 1 xs'))"

section \<open>The validator's data\<close>

record task =
  base_text :: string
  task_name :: string
  task_type :: string

datatype reward_model_type = blacklist_type | nsfw_type | mistral_type | relevance_type | diversity_type

datatype reward_model =
    MistralRewardModel
  | RelevanceRewardModel
  | DiversityRewardModel
  | NSFWRewardModel
  | Blacklist
  | MockRewardModel reward_model_type

datatype penalty_model =
    TaskValidationPenaltyModel real
  | ContentMatchPenaltyModel real
  | KeywordMatchPenaltyModel real

record config =
  mock_reward_models :: bool
  mistral_weight :: real
  blacklist_off :: bool
  relevance_off :: bool
  diversity_off :: bool
  nsfw_off :: bool
  vpermit_tao_limit :: int
  moving_average_alpha :: real
  epoch_length_override :: "int option"
  epoch_length :: int

record metagraph =
  n_item :: nat
  axons :: "string list"
  hotkeys :: "string list"

record neuron =
  config :: config
  metagraph :: metagraph
  wallet_hotkey :: string
  reward_weights :: "real list"
  reward_functions :: "reward_model list"
  blacklist :: "reward_model option"
  diversity_model :: "reward_model option"
  masking_functions :: "reward_model list"
  penalty_functions :: "penalty_model list"
  moving_averaged_scores :: "real list"
  prev_block :: int
  step :: nat

text \<open>
  What the two source files call but do not define, taken as parameters: the eligibility
  check of \<^verbatim>\<open>prompting.validators.utils\<close>, the \<^verbatim>\<open>apply\<close> and \<^verbatim>\<open>apply_penalties\<close>
  methods of the reward and penalty models, the dendrite that queries the axons, the
  gating model (its forward pass and its \<^verbatim>\<open>backward\<close> on the scores of the queried
  uids and the rewards, which gives a loss or raises), and the numbers that Python's
  random generator hands to \<^verbatim>\<open>random.sample\<close>.
\<close>

record collaborators =
  check_uid_availability :: "metagraph \<Rightarrow> nat \<Rightarrow> int \<Rightarrow> bool"
  reward_apply :: "reward_model \<Rightarrow> string \<Rightarrow> response list \<Rightarrow> string \<Rightarrow> real list"
  apply_penalties :: "penalty_model \<Rightarrow> response list \<Rightarrow> task \<Rightarrow> real list \<times> real list \<times> real list"
  dendrite :: "string list \<Rightarrow> response list"
  gating :: "nat list \<Rightarrow> real list \<Rightarrow> exn + real"
  randbelow :: "nat list"

section \<open>Constructing the scoring pipeline\<close>

text \<open>\<^verbatim>\<open>neuron.init_reward_models\<close>. The mock branch installs no weighted function and
  makes no check; the other branch builds the weight tensor from \<open>mistral_weight\<close> and
  raises unless its sum is 1, and unless there are as many functions as weights. (The
  relevance model it also constructs is a local variable that no list receives.)\<close>

definition init_reward_models :: "neuron \<Rightarrow> exn + neuron" where
  "init_reward_models self =
     (if mock_reward_models (config self) then
        Inr (self\<lparr>reward_functions := [],
                  reward_weights := [],
                  blacklist := Some (MockRewardModel blacklist_type),
                  masking_functions := [MockRewardModel blacklist_type, MockRewardModel nsfw_type],
                  penalty_functions := [TaskValidationPenaltyModel 0.75,
                                        ContentMatchPenaltyModel 0.2,
                                        KeywordMatchPenaltyModel 1]\<rparr>)
      else
        (let weights = [mistral_weight (config self)] in
         if sum_list weights \<noteq> 1 then
           Inl (Exception ''Reward function weights do not sum to 1'')
         else
           (let functions = [if mistral_weight (config self) > 0 then MistralRewardModel
                             else MockRewardModel mistral_type] in
            if length functions \<noteq> length weights then
              Inl (Exception ''Length of reward function weights and reward functions do not match'')
            else
              (let bl = (if \<not> blacklist_off (config self) then Blacklist
                         else MockRewardModel blacklist_type);
                   dm = (if \<not> diversity_off (config self) then DiversityRewardModel
                         else MockRewardModel diversity_type);
                   nsfw_model = (if \<not> nsfw_off (config self) then NSFWRewardModel
                                 else MockRewardModel nsfw_type)
               in Inr (self\<lparr>reward_weights := weights,
                            reward_functions := functions,
                            blacklist := Some bl,
                            diversity_model := Some dm,
                            masking_functions := [bl, nsfw_model],
                            penalty_functions := [TaskValidationPenaltyModel 0.6,
                                                  ContentMatchPenaltyModel 0.2,
                                                  KeywordMatchPenaltyModel 1]\<rparr>)))))"

text \<open>The end of \<^verbatim>\<open>neuron.__init__\<close>: the epoch length is the override when one is set
  (and not zero), and 100 otherwise.\<close>

definition init_epoch_length :: "config \<Rightarrow> config" where
  "init_epoch_length c =
     (case epoch_length_override c of
        None \<Rightarrow> c\<lparr>epoch_length := 100\<rparr>
      | Some v \<Rightarrow> if v \<noteq> 0 then c\<lparr>epoch_length := v\<rparr> else c\<lparr>epoch_length := 100\<rparr>)"

section \<open>Sampling the peers to query\<close>

text \<open>
  \<^verbatim>\<open>random.sample(population, k)\<close> draws \<open>k\<close> positions without replacement. The
  numbers the generator produces are the explicit list \<open>rs\<close> (a missing number counts as
  0): each one picks a position among the elements still in the pool, and the picked
  element leaves the pool. Every order of every \<open>k\<close> distinct positions is the result for
  some \<open>rs\<close>. Python raises when \<open>k\<close> is negative or larger than the population.
\<close>

fun draw :: "nat list \<Rightarrow> 'a list \<Rightarrow> nat \<Rightarrow> 'a list" where
  "draw rs pool 0 = []"
| "draw rs pool (Suc k) =
     (let j = (case rs of [] \<Rightarrow> 0 | r # _ \<Rightarrow> r mod length pool)
      in pool ! j # draw (tl rs) (take j pool @ drop (Suc j) pool) k)"

definition random_sample :: "nat list \<Rightarrow> 'a list \<Rightarrow> int \<Rightarrow> exn + 'a list" where
  "random_sample rs population k =
     (if k < 0 \<or> int (length population) < k then
        Inl (ValueError ''Sample larger than population or is negative'')
      else Inr (draw rs population (nat k)))"

text \<open>The candidates of \<^verbatim>\<open>get_random_uids\<close>: the uids of the metagraph, in order, that
  are available and not excluded (\<open>exclude\<close> is \<open>None\<close> or a list of integers).\<close>

definition candidate_uids :: "collaborators \<Rightarrow> neuron \<Rightarrow> int list option \<Rightarrow> nat list" where
  "candidate_uids ext self exclude =
     filter (\<lambda>uid.
         check_uid_availability ext (metagraph self) uid (vpermit_tao_limit (config self)) \<and>
         (case exclude of None \<Rightarrow> True | Some ex \<Rightarrow> int uid \<notin> set ex))
       [0 ..< n_item (metagraph self)]"

definition get_random_uids :: "collaborators \<Rightarrow> neuron \<Rightarrow> int \<Rightarrow> int list option \<Rightarrow> exn + nat list" where
  "get_random_uids ext self k exclude =
     (let cands = candidate_uids ext self exclude;
          k' = (if int (length cands) < k then int (length cands) else k)
      in if cands \<noteq> [] then random_sample (randbelow ext) cands k' else Inr [])"

section \<open>Aggregating the rewards\<close>

text \<open>\<^verbatim>\<open>compute_rewards\<close>: a zero vector, plus each weighted output, times each mask,
  times each applied penalty. The event dictionary only records what was computed and
  is left out.\<close>

definition compute_rewards ::
  "collaborators \<Rightarrow> neuron \<Rightarrow> task \<Rightarrow> response list \<Rightarrow> string \<Rightarrow> exn + real list" where
  "compute_rewards ext self tsk responses tname =
     (let rewards = replicate (length responses) 0 in
      case accumulate (+) rewards
             (map (\<lambda>(weight_i, reward_fn_i).
                     map ((*) weight_i) (reward_apply ext reward_fn_i (base_text tsk) responses tname))
                (zip (reward_weights self) (reward_functions self))) of
        Inl e \<Rightarrow> Inl e
      | Inr rewards1 \<Rightarrow>
          (case accumulate (*) rewards1
                  (map (\<lambda>masking_fn_i. reward_apply ext masking_fn_i (base_text tsk) responses tname)
                     (masking_functions self)) of
             Inl e \<Rightarrow> Inl e
           | Inr rewards2 \<Rightarrow>
               accumulate (*) rewards2
                 (map (\<lambda>penalty_fn_i. snd (snd (apply_penalties ext penalty_fn_i responses tsk)))
                    (penalty_functions self))))"

section \<open>The trust ledger and the round step\<close>

text \<open>Lines 221 to 232 of \<^verbatim>\<open>run_step\<close>: the rewards are scattered into a copy of the
  current scores, and the new scores are the moving average of that copy and the current
  scores.\<close>

definition update_scores :: "real \<Rightarrow> real list \<Rightarrow> nat list \<Rightarrow> real list \<Rightarrow> exn + real list" where
  "update_scores alpha scores uids rewards =
     (case scatter scores uids rewards of
        Inl e \<Rightarrow> Inl e
      | Inr scattered_rewards \<Rightarrow>
          Inr (map2 (\<lambda>s m. alpha * s + (1 - alpha) * m) scattered_rewards scores))"

text \<open>The update as the specification words it: the rewards scattered into a vector of
  zeros, not into a copy of the scores.\<close>

definition spec_update_scores :: "real \<Rightarrow> real list \<Rightarrow> nat list \<Rightarrow> real list \<Rightarrow> exn + real list" where
  "spec_update_scores alpha scores uids rewards =
     (case scatter (replicate (length scores) 0) uids rewards of
        Inl e \<Rightarrow> Inl e
      | Inr sparse \<Rightarrow>
          Inr (map2 (\<lambda>s m. alpha * s + (1 - alpha) * m) sparse scores))"

text \<open>Several updates in a row, one per round, each with its queried uids and rewards.\<close>

fun update_rounds :: "real \<Rightarrow> real list \<Rightarrow> (nat list \<times> real list) list \<Rightarrow> exn + real list" where
  "update_rounds alpha scores [] = Inr scores"
| "update_rounds alpha scores ((uids, rewards) # rounds) =
     (case update_scores alpha scores uids rewards of
        Inl e \<Rightarrow> Inl e
      | Inr scores' \<Rightarrow> update_rounds alpha scores' rounds)"

text \<open>Python's \<^verbatim>\<open>s.strip()\<close> removes white space at both ends; these are its ASCII
  white-space characters.\<close>

definition whitespace :: string where
  "whitespace = map char_of [9, 10, 11, 12, 13, 28, 29, 30, 31, 32 :: nat]"

record step_event =
  event_uids :: "nat list"
  event_completions :: "string list"
  event_rewards :: "real list"
  event_gating_loss :: real
  event_best :: string

text \<open>
  \<^verbatim>\<open>run_step\<close>, from the sampling of the uids to the update of the scores. The
  composition of the prompt, the blacklist's memory of completions, the completion times
  and status texts, and the logging have no part in what the step returns here. Every
  place where the source can raise is a branch: the sampling, the lookup of an axon, the
  aggregation, the gating model, \<^verbatim>\<open>argmax\<close> on the rewards, and the scatter.
\<close>

definition run_step ::
  "collaborators \<Rightarrow> neuron \<Rightarrow> task \<Rightarrow> int \<Rightarrow> int list \<Rightarrow> exn + (step_event \<times> neuron)" where
  "run_step ext self tsk k exclude =
     (case get_random_uids ext self k (Some exclude) of
        Inl e \<Rightarrow> Inl e
      | Inr uids \<Rightarrow>
          if list_ex (\<lambda>uid. length (axons (metagraph self)) \<le> uid) uids then
            Inl (IndexError ''list index out of range'')
          else
            (let responses0 = dendrite ext (map (\<lambda>uid. axons (metagraph self) ! uid) uids);
                 responses = restrict_format_followup_responses responses0 (task_name tsk)
             in case compute_rewards ext self tsk responses (task_name tsk) of
                  Inl e \<Rightarrow> Inl e
                | Inr rewards \<Rightarrow>
                    (case gating ext uids rewards of
                       Inl e \<Rightarrow> Inl e
                     | Inr gating_loss \<Rightarrow>
                         (let completions = map completion responses in
                          case argmax rewards of
                            Inl e \<Rightarrow> Inl e
                          | Inr b \<Rightarrow>
                              if length completions \<le> b then
                                Inl (IndexError ''list index out of range'')
                              else
                                (let best = str_strip whitespace (completions ! b) in
                                 case update_scores (moving_average_alpha (config self))
                                        (moving_averaged_scores self) uids rewards of
                                   Inl e \<Rightarrow> Inl e
                                 | Inr scores' \<Rightarrow>
                                     Inr (\<lparr>event_uids = uids,
                                           event_completions = completions,
                                           event_rewards = rewards,
                                           event_gating_loss = gating_loss,
                                           event_best = best\<rparr>,
                                          self\<lparr>moving_averaged_scores := scores'\<rparr>))))))"

section \<open>The epoch scheduler and the run loop\<close>

text \<open>\<^verbatim>\<open>neuron.should_update\<close>, given the block height that \<^verbatim>\<open>ttl_get_block\<close> reads.\<close>

definition should_update :: "neuron \<Rightarrow> int \<Rightarrow> bool" where
  "should_update self cur_block = (cur_block - prev_block self > epoch_length (config self))"

text \<open>
  What one iteration of the loop receives from outside: whether the forwards complete
  (leaving their moving-averaged scores) or raise, the two block heights read by
  \<^verbatim>\<open>should_update\<close> and by the assignment to \<^verbatim>\<open>prev_block\<close>, what \<^verbatim>\<open>checkpoint\<close>
  leaves (the resynced metagraph and scores) or raises, the answer of
  \<^verbatim>\<open>should_set_weights\<close>, whether \<^verbatim>\<open>set_weights\<close> returns (with the success of the
  commit) or raises, whether \<^verbatim>\<open>save_state\<close> raises, and the answer of
  \<^verbatim>\<open>should_reinit_wandb\<close>.
\<close>

record round_io =
  forward_result :: "exn + real list"
  block_at_check :: int
  checkpoint_result :: "exn + (metagraph \<times> real list)"
  should_set_weights :: bool
  set_weights_result :: "exn + bool"
  save_state_result :: "exn option"
  block_at_record :: int
  should_reinit_wandb :: bool

datatype action =
    Forward
  | Checkpoint
  | SetWeights bool
  | SaveState
  | RecordHeight int
  | ReinitWandb
  | LogError exn
  | PrintException exn

text \<open>The body of \<^verbatim>\<open>if self.should_update():\<close>. The result is the exception that left
  the block, if any, the neuron as it is then, and the calls made.\<close>

definition epoch_boundary :: "neuron \<Rightarrow> round_io \<Rightarrow> exn option \<times> neuron \<times> action list" where
  "epoch_boundary self io =
     (case checkpoint_result io of
        Inl e \<Rightarrow> (Some e, self, [Checkpoint])
      | Inr (mg, scores) \<Rightarrow>
          (let self1 = self\<lparr>metagraph := mg, moving_averaged_scores := scores\<rparr> in
           if should_set_weights io then
             (case set_weights_result io of
                Inl e \<Rightarrow> (Some e, self1, [Checkpoint])
              | Inr ok \<Rightarrow>
                  (case save_state_result io of
                     Some e \<Rightarrow> (Some e, self1, [Checkpoint, SetWeights ok])
                   | None \<Rightarrow>
                       (None, self1\<lparr>prev_block := block_at_record io\<rparr>,
                        [Checkpoint, SetWeights ok, SaveState, RecordHeight (block_at_record io)])))
           else
             (None, self1\<lparr>prev_block := block_at_record io\<rparr>,
              [Checkpoint, RecordHeight (block_at_record io)])))"

text \<open>One pass through the body of \<^verbatim>\<open>while True:\<close>.\<close>

definition iteration :: "neuron \<Rightarrow> round_io \<Rightarrow> exn option \<times> neuron \<times> action list" where
  "iteration self io =
     (if wallet_hotkey self \<notin> set (hotkeys (metagraph self)) then
        (Some (Exception ''Validator is not registered - hotkey not in metagraph''), self, [])
      else
        (case forward_result io of
           Inl e \<Rightarrow> (Some e, self, [Forward])
         | Inr scores \<Rightarrow>
             (let self1 = self\<lparr>moving_averaged_scores := scores\<rparr>;
                  (err, self2, acts) =
                     (if should_update self1 (block_at_check io) then epoch_boundary self1 io
                      else (None, self1, []))
              in case err of
                   Some e \<Rightarrow> (Some e, self2, Forward # acts)
                 | None \<Rightarrow>
                     (None, self2\<lparr>step := step self2 + 1\<rparr>,
                      Forward # acts @ (if should_reinit_wandb io then [ReinitWandb] else [])))))"

datatype run_status = Terminated exn | Running

text \<open>
  The \<^verbatim>\<open>try\<close> block of \<^verbatim>\<open>neuron.run\<close>. The loop has no exit but an exception, so the
  model runs it for as many iterations as \<open>ios\<close> describes: the result is \<open>Running\<close> when
  they are used up, and \<open>Terminated e\<close> when an iteration raised \<open>e\<close>, which the handler
  logs as an error and prints with its traceback before \<^verbatim>\<open>run\<close> returns.
\<close>

fun run :: "neuron \<Rightarrow> round_io list \<Rightarrow> run_status \<times> neuron \<times> action list" where
  "run self [] = (Running, self, [])"
| "run self (io # ios) =
     (case iteration self io of
        (Some e, self', acts) \<Rightarrow> (Terminated e, self', acts @ [LogError e, PrintException e])
      | (None, self', acts) \<Rightarrow>
          (case run self' ios of (st, self'', acts') \<Rightarrow> (st, self'', acts @ acts')))"

section \<open>A small validator for the examples\<close>

definition demo_config :: config where
  "demo_config =
     \<lparr>mock_reward_models = False, mistral_weight = 1, blacklist_off = False,
      relevance_off = False, diversity_off = False, nsfw_off = False,
      vpermit_tao_limit = 4096, moving_average_alpha = 1 / 2,
      epoch_length_override = None, epoch_length = 100\<rparr>"

definition demo_metagraph :: metagraph where
  "demo_metagraph =
     \<lparr>n_item = 5,
      axons = [''axon0'', ''axon1'', ''axon2'', ''axon3'', ''axon4''],
      hotkeys = [''hk0'', ''hk1'', ''hk2'', ''hk3'', ''hk4'']\<rparr>"

definition demo_neuron :: neuron where
  "demo_neuron =
     \<lparr>config = demo_config, metagraph = demo_metagraph, wallet_hotkey = ''hk0'',
      reward_weights = [1], reward_functions = [MistralRewardModel],
      blacklist = None, diversity_model = None,
      masking_functions = [], penalty_functions = [],
      moving_averaged_scores = [0, 0, 0, 0, 0], prev_block = 1000, step = 0\<rparr>"

text \<open>Collaborators for the examples: every uid is available, the one scoring function
  answers \<open>[0.2, 0.4, 0.6]\<close> (as far as there are responses), every other function answers ones, and each axon answers
  with its own name as the completion; the gating model reports the loss 0.\<close>

definition demo_ext :: collaborators where
  "demo_ext =
     \<lparr>check_uid_availability = (\<lambda>mg uid limit. True),
      reward_apply = (\<lambda>m base rs tname.
         if m = MistralRewardModel then take (length rs) [2 / 10, 4 / 10, 6 / 10]
         else replicate (length rs) 1),
      apply_penalties = (\<lambda>p rs tsk.
         (replicate (length rs) 0, replicate (length rs) 0, replicate (length rs) 1)),
      dendrite = map (\<lambda>a. \<lparr>completion = a, status_message = ''OK'', status_code = ''200'',
                            process_time = Some 1\<rparr>),
      gating = (\<lambda>uids rewards. Inr 0),
      randbelow = [7, 0, 2]\<rparr>"

definition demo_task :: task where
  "demo_task = \<lparr>base_text = ''Your name is Ada.'', task_name = ''message_from_description'',
                 task_type = ''roleplay''\<rparr>"

definition demo_io :: round_io where
  "demo_io =
     \<lparr>forward_result = Inr [1 / 10, 2 / 10, 3 / 10, 0, 0],
      block_at_check = 1101,
      checkpoint_result = Inr (demo_metagraph, [1 / 10, 2 / 10, 3 / 10, 0, 0]),
      should_set_weights = True,
      set_weights_result = Inr False,
      save_state_result = None,
      block_at_record = 1102,
      should_reinit_wandb = False\<rparr>"

text \<open>Scenario B of the specification: the weighted score is \<open>[0.5, 0.5, 0.5]\<close> and the
  blacklist masks the second of three responses.\<close>

definition scenario_B_ext :: collaborators where
  "scenario_B_ext =
     demo_ext\<lparr>reward_apply := (\<lambda>m base rs tname.
        if m = MistralRewardModel then replicate (length rs) (1 / 2)
        else if m = Blacklist then take (length rs) [1, 0, 1]
        else replicate (length rs) 1)\<rparr>"

definition scenario_B_neuron :: neuron where
  "scenario_B_neuron =
     demo_neuron\<lparr>masking_functions := [Blacklist, NSFWRewardModel],
                 penalty_functions := [TaskValidationPenaltyModel (6 / 10)]\<rparr>"

text \<open>A round whose resync drops the validator's own hotkey from the metagraph, and in
  which no commit is due.\<close>

definition demo_io_resync :: round_io where
  "demo_io_resync =
     demo_io\<lparr>checkpoint_result :=
                Inr (demo_metagraph\<lparr>hotkeys := [''hk9'', ''hk1'', ''hk2'', ''hk3'', ''hk4'']\<rparr>,
                     [0, 2 / 10, 3 / 10, 0, 0]),
             should_set_weights := False\<rparr>"

text \<open>A round at an epoch boundary in which the commit is due and \<^verbatim>\<open>set_weights\<close>
  raises.\<close>

definition demo_io_commit_raises :: round_io where
  "demo_io_commit_raises =
     demo_io\<lparr>set_weights_result := Inl (RuntimeError ''set_weights failed'')\<rparr>"

text \<open>The example validator with the scoring pipeline that \<open>init_reward_models\<close> builds
  for it: two masking functions and three penalty functions.\<close>

definition demo_pipeline :: neuron where
  "demo_pipeline =
     demo_neuron\<lparr>reward_weights := [1],
                  reward_functions := [MistralRewardModel],
                  blacklist := Some Blacklist,
                  diversity_model := Some DiversityRewardModel,
                  masking_functions := [Blacklist, NSFWRewardModel],
                  penalty_functions := [TaskValidationPenaltyModel 0.6,
                                        ContentMatchPenaltyModel 0.2,
                                        KeywordMatchPenaltyModel 1]\<rparr>"

subsection \<open>Facts about splitting and joining\<close>

lemma str_split_not_Nil: "str_split sep s \<noteq> []"
  by (induction s) (auto split: list.splits)

lemma str_split_absent: "sep \<notin> set s \<Longrightarrow> str_split sep s = [s]"
  by (induction s) auto

lemma str_split_pieces: "w \<in> set (str_split sep s) \<Longrightarrow> sep \<notin> set w \<and> set w \<subseteq> set s"
proof (induction s arbitrary: w)
  case Nil
  then show ?case by simp
next
  case (Cons c cs)
  obtain p ps where sp: "str_split sep cs = p # ps"
    using str_split_not_Nil [of sep cs] by (cases "str_split sep cs") auto
  have hd: "sep \<notin> set p \<and> set p \<subseteq> set cs"
    using Cons.IH [of p] sp by simp
  have tl: "\<And>v. v \<in> set ps \<Longrightarrow> sep \<notin> set v \<and> set v \<subseteq> set cs"
    using Cons.IH sp by simp
  show ?case
  proof (cases "c = sep")
    case True
    with Cons.prems sp have "w = [] \<or> w = p \<or> w \<in> set ps" by auto
    then show ?thesis using hd tl by auto
  next
    case False
    with Cons.prems sp have "w = c # p \<or> w \<in> set ps" by auto
    then show ?thesis using hd tl False by auto
  qed
qed

lemma str_split_append_sep:
  "sep \<notin> set b \<Longrightarrow> str_split sep (b @ sep # rest) = b # str_split sep rest"
proof (induction b)
  case Nil
  then show ?case
    using str_split_not_Nil [of sep rest] by (cases "str_split sep rest") auto
next
  case (Cons c b)
  then show ?case by auto
qed

lemma set_str_join: "set (str_join sep ws) \<subseteq> set sep \<union> \<Union> (set ` set ws)"
  by (induction sep ws rule: str_join.induct) auto

lemma str_split_join:
  "ws \<noteq> [] \<Longrightarrow> \<forall>w \<in> set ws. sep \<notin> set w \<Longrightarrow> str_split sep (str_join [sep] ws) = ws"
proof (induction "[sep]" ws rule: str_join.induct)
  case 1
  then show ?case by simp
next
  case (2 w)
  then show ?case by (simp add: str_split_absent)
next
  case (3 w v ws)
  then have "str_split sep (str_join [sep] (v # ws)) = v # ws" by simp
  moreover have "sep \<notin> set w" using 3 by simp
  ultimately show ?case
    using str_split_append_sep [of sep w "str_join [sep] (v # ws)"] by simp
qed

lemma str_strip_absent: "set s \<inter> set chars = {} \<Longrightarrow> str_strip chars s = s"
proof -
  assume d: "set s \<inter> set chars = {}"
  then have 1: "dropWhile (\<lambda>c. c \<in> set chars) s = s"
    by (cases s) auto
  from d have 2: "dropWhile (\<lambda>c. c \<in> set chars) (rev s) = rev s"
    by (cases "rev s") (auto simp: disjoint_iff dest: arg_cong [where f = set])
  show ?thesis by (simp add: str_strip_def 1 2)
qed

lemma length_slice_last: "length (slice_last m xs) \<le> m"
  by (simp add: slice_last_def)

lemma set_slice_last: "set (slice_last m xs) \<subseteq> set xs"
  by (auto simp: slice_last_def dest: in_set_dropD)

lemma slice_last_not_Nil: "0 < m \<Longrightarrow> xs \<noteq> [] \<Longrightarrow> slice_last m xs \<noteq> []"
  by (cases xs) (auto simp: slice_last_def)

lemma slice_last_short: "length xs \<le> m \<Longrightarrow> slice_last m xs = xs"
  by (simp add: slice_last_def)

subsection \<open>The follow-up restriction is idempotent\<close>

lemma split_cap_words:
  "str_split (CHR '' '') (cap_words t) = slice_last max_words (str_split (CHR '' '') t)"
proof -
  let ?ws = "slice_last max_words (str_split (CHR '' '') t)"
  have ne: "?ws \<noteq> []"
    by (rule slice_last_not_Nil) (simp_all add: max_words_def str_split_not_Nil)
  have "\<forall>w \<in> set ?ws. CHR '' '' \<notin> set w"
    using set_slice_last [of max_words "str_split (CHR '' '') t"] str_split_pieces by blast
  from str_split_join [OF ne this] show ?thesis by (simp add: cap_words_def)
qed

lemma cap_words_idem: "cap_words (cap_words t) = cap_words t"
proof -
  have "cap_words (cap_words t) =
        str_join '' '' (slice_last max_words (slice_last max_words (str_split (CHR '' '') t)))"
    by (simp add: cap_words_def [of "cap_words t"] split_cap_words)
  also have "slice_last max_words (slice_last max_words (str_split (CHR '' '') t)) =
             slice_last max_words (str_split (CHR '' '') t)"
    by (rule slice_last_short) (rule length_slice_last)
  finally show ?thesis by (simp add: cap_words_def)
qed

lemma set_cap_words: "set (cap_words t) \<subseteq> insert (CHR '' '') (set t)"
proof -
  have "\<Union> (set ` set (slice_last max_words (str_split (CHR '' '') t))) \<subseteq> set t"
    using set_slice_last [of max_words "str_split (CHR '' '') t"] str_split_pieces by blast
  then show ?thesis
    using set_str_join [of "'' ''" "slice_last max_words (str_split (CHR '' '') t)"]
    unfolding cap_words_def by (simp add: subset_iff) blast
qed

lemma last_split_clean: "sep \<notin> set (last (str_split sep s)) \<and> set (last (str_split sep s)) \<subseteq> set s"
  using str_split_pieces [of "last (str_split sep s)" sep s] str_split_not_Nil [of sep s]
  by simp

lemma hd_split_clean: "sep \<notin> set (hd (str_split sep s)) \<and> set (hd (str_split sep s)) \<subseteq> set s"
  using str_split_pieces [of "hd (str_split sep s)" sep s] str_split_not_Nil [of sep s]
  by simp

lemma restrict_completion_question:
  assumes "CHR ''.'' \<notin> set t" "CHR ''?'' \<notin> set t" "str_contains ''followup'' tn"
  shows "restrict_completion tn (cap_words t @ ''?'') = cap_words t @ ''?''"
proof -
  let ?r = "cap_words t @ ''?''"
  have nd: "CHR ''.'' \<notin> set (cap_words t)" and nq: "CHR ''?'' \<notin> set (cap_words t)"
    using set_cap_words [of t] assms by auto
  have st: "str_strip ''.'' ?r = ?r"
    by (rule str_strip_absent) (use nd in auto)
  have h: "hd (str_split (CHR ''?'') ?r) = cap_words t"
    using str_split_append_sep [OF nq, of "[]"] by simp
  have l: "last (str_split (CHR ''.'') (cap_words t)) = cap_words t"
    by (simp add: str_split_absent [OF nd])
  show ?thesis
    unfolding restrict_completion_def st Let_def h l
    using assms(3) cap_words_idem [of t] by (simp add: cap_words_def)
qed

lemma restrict_completion_plain:
  assumes "CHR ''.'' \<notin> set t" "CHR ''?'' \<notin> set t"
  shows "restrict_completion tn (cap_words t) = cap_words t"
proof -
  let ?r = "cap_words t"
  have nd: "CHR ''.'' \<notin> set ?r" and nq: "CHR ''?'' \<notin> set ?r"
    using set_cap_words [of t] assms by auto
  have st: "str_strip ''.'' ?r = ?r"
    by (rule str_strip_absent) (use nd in auto)
  have l: "last (str_split (CHR ''.'') ?r) = ?r"
    by (simp add: str_split_absent [OF nd])
  show ?thesis
    unfolding restrict_completion_def st Let_def l
    using nq cap_words_idem [of t] by (simp add: cap_words_def)
qed

lemma restrict_completion_idem:
  "restrict_completion tn (restrict_completion tn c) = restrict_completion tn c"
proof (cases "str_contains ''followup'' tn \<and> length (str_strip ''.'' c) > 0")
  case False
  then show ?thesis by (auto simp: restrict_completion_def Let_def)
next
  case True
  let ?s = "str_strip ''.'' c"
  show ?thesis
  proof (cases "CHR ''?'' \<in> set ?s")
    case q: True
    let ?t = "last (str_split (CHR ''.'') (hd (str_split (CHR ''?'') ?s)))"
    have r: "restrict_completion tn c = cap_words ?t @ ''?''"
      using True q by (simp add: restrict_completion_def Let_def cap_words_def)
    have "CHR ''.'' \<notin> set ?t" using last_split_clean by blast
    moreover have "CHR ''?'' \<notin> set ?t"
      using last_split_clean [of "CHR ''.''" "hd (str_split (CHR ''?'') ?s)"]
        hd_split_clean [of "CHR ''?''" ?s] by blast
    ultimately show ?thesis
      unfolding r using True by (intro restrict_completion_question) simp_all
  next
    case nq: False
    let ?t = "last (str_split (CHR ''.'') (last (str_split (CHR ''.'') ?s)))"
    have r: "restrict_completion tn c = cap_words ?t"
      using True nq by (simp add: restrict_completion_def Let_def cap_words_def)
    have "CHR ''.'' \<notin> set ?t" using last_split_clean by blast
    moreover have "CHR ''?'' \<notin> set ?t"
      using last_split_clean [of "CHR ''.''" "last (str_split (CHR ''.'') ?s)"]
        last_split_clean [of "CHR ''.''" ?s] nq by blast
    ultimately show ?thesis
      unfolding r by (intro restrict_completion_plain)
  qed
qed

lemma restrict_format_idem:
  "restrict_format_followup_responses (restrict_format_followup_responses rs tn) tn =
   restrict_format_followup_responses rs tn"
  by (simp add: restrict_format_followup_responses_def restrict_completion_idem)

text \<open>
  Claim C5. Applying \<open>restrict_format_followup_responses\<close> twice gives the same
  completions as applying it once, for every list of responses and every task name,
  follow-up or not.
\<close>

theorem restrict_format_followup_responses_idempotent:
  "map completion
     (restrict_format_followup_responses (restrict_format_followup_responses rs tn) tn) =
   map completion (restrict_format_followup_responses rs tn)"
  by (simp only: restrict_format_idem)

theorem restrict_format_followup_responses_idempotent_witness:
  "map completion
     (restrict_format_followup_responses
        (restrict_format_followup_responses
           [\<lparr>completion = ''Sure. How are you today? I am fine.'', status_message = ''OK'',
             status_code = ''200'', process_time = None\<rparr>] ''followup'') ''followup'') =
   map completion
     (restrict_format_followup_responses
        [\<lparr>completion = ''Sure. How are you today? I am fine.'', status_message = ''OK'',
          status_code = ''200'', process_time = None\<rparr>] ''followup'') \<and>
   map completion
     (restrict_format_followup_responses
        [\<lparr>completion = ''Sure. How are you today? I am fine.'', status_message = ''OK'',
          status_code = ''200'', process_time = None\<rparr>] ''followup'') =
   ['' How are you today?'']"
  using restrict_format_followup_responses_idempotent
    [of "[\<lparr>completion = ''Sure. How are you today? I am fine.'', status_message = ''OK'',
            status_code = ''200'', process_time = None\<rparr>]" "''followup''"]
  by (simp add: restrict_format_followup_responses_def restrict_completion_def str_strip_def
      slice_last_def max_words_def)

subsection \<open>Scenario D\<close>

text \<open>
  Claim C9, as the specification states it, does not hold: the normalizer never changes
  the case of a letter, so the completion \<open>What do you like?.\<close> of a follow-up task does
  not become \<open>what do you like?\<close>.
\<close>

theorem scenario_D_not_lowercased:
  "map completion
     (restrict_format_followup_responses
        [\<lparr>completion = ''What do you like?.'', status_message = ''OK'',
          status_code = ''200'', process_time = None\<rparr>] ''followup'') \<noteq>
   [''what do you like?'']"
  by (simp add: restrict_format_followup_responses_def restrict_completion_def str_strip_def
      slice_last_def max_words_def)

text \<open>
  Claim C9, amended. For a follow-up task (a task name that contains \<open>followup\<close>) the
  completion \<open>What do you like?.\<close> is normalized to \<open>What do you like?\<close>, with its
  capital letter kept; the result has at most 40 words and ends in a question mark.
\<close>

theorem scenario_D_normalized:
  assumes "str_contains ''followup'' tn"
  shows "map completion
           (restrict_format_followup_responses
              [\<lparr>completion = ''What do you like?.'', status_message = sm,
                status_code = sc, process_time = pt\<rparr>] tn) = [''What do you like?''] \<and>
         length (str_split (CHR '' '') (restrict_completion tn ''What do you like?.'')) \<le> 40 \<and>
         last (restrict_completion tn ''What do you like?.'') = CHR ''?''"
  using assms
  by (simp add: restrict_format_followup_responses_def restrict_completion_def str_strip_def
      slice_last_def max_words_def)

theorem scenario_D_normalized_witness:
  "str_contains ''followup'' ''followup'' \<and>
   map completion
     (restrict_format_followup_responses
        [\<lparr>completion = ''What do you like?.'', status_message = ''OK'',
          status_code = ''200'', process_time = None\<rparr>] ''followup'') = [''What do you like?''] \<and>
   length (str_split (CHR '' '') (restrict_completion ''followup'' ''What do you like?.'')) \<le> 40 \<and>
   last (restrict_completion ''followup'' ''What do you like?.'') = CHR ''?''"
proof -
  have h: "str_contains ''followup'' ''followup''" by simp
  show ?thesis
    using h scenario_D_normalized [OF h, of "''OK''" "''200''" None] by simp
qed

subsection \<open>Aggregation\<close>

lemma inplace_length: "inplace f r v = Inr r' \<Longrightarrow> length r' = length r"
  by (auto simp: inplace_def split: if_splits)

lemma accumulate_length: "accumulate f r vs = Inr r' \<Longrightarrow> length r' = length r"
proof (induction vs arbitrary: r)
  case Nil
  then show ?case by simp
next
  case (Cons v vs)
  then show ?case by (auto split: sum.splits dest: inplace_length)
qed

lemma inplace_mult_zero:
  "inplace (*) r v = Inr r' \<Longrightarrow> i < length r \<Longrightarrow> r ! i = 0 \<Longrightarrow> r' ! i = 0"
  by (auto simp: inplace_def split: if_splits)

lemma inplace_mult_mask:
  assumes "inplace (*) r v = Inr r'" "i < length r" "i < length v" "v ! i = 0"
  shows "r' ! i = 0"
proof (cases "length v = length r")
  case True
  with assms show ?thesis by (auto simp: inplace_def)
next
  case False
  with assms(1) have one: "length v = 1" by (auto simp: inplace_def split: if_splits)
  then obtain x where v: "v = [x]" by (cases v) auto
  with assms have "x = 0" by simp
  with assms False v show ?thesis by (auto simp: inplace_def)
qed

lemma accumulate_mult_zero:
  "accumulate (*) r vs = Inr r' \<Longrightarrow> i < length r \<Longrightarrow> r ! i = 0 \<Longrightarrow> r' ! i = 0"
proof (induction vs arbitrary: r)
  case Nil
  then show ?case by simp
next
  case (Cons v vs)
  from Cons.prems(1) obtain r1 where s: "inplace (*) r v = Inr r1" and a: "accumulate (*) r1 vs = Inr r'"
    by (auto split: sum.splits)
  have "length r1 = length r" using s by (rule inplace_length)
  moreover have "r1 ! i = 0" using s Cons.prems(2,3) by (rule inplace_mult_zero)
  ultimately show ?case using Cons.IH [OF a] Cons.prems(2) by simp
qed

lemma accumulate_mult_mask:
  "accumulate (*) r vs = Inr r' \<Longrightarrow> v \<in> set vs \<Longrightarrow> i < length r \<Longrightarrow> i < length v \<Longrightarrow>
   v ! i = 0 \<Longrightarrow> r' ! i = 0"
proof (induction vs arbitrary: r)
  case Nil
  then show ?case by simp
next
  case (Cons w vs)
  from Cons.prems(1) obtain r1 where s: "inplace (*) r w = Inr r1" and a: "accumulate (*) r1 vs = Inr r'"
    by (auto split: sum.splits)
  have len: "length r1 = length r" using s by (rule inplace_length)
  show ?case
  proof (cases "v = w")
    case True
    then have "r1 ! i = 0" using s Cons.prems(3,4,5) by (auto intro: inplace_mult_mask)
    then show ?thesis using accumulate_mult_zero [OF a] len Cons.prems(3) by simp
  next
    case False
    then have "v \<in> set vs" using Cons.prems(2) by simp
    then show ?thesis using Cons.IH [OF a] len Cons.prems(3,4,5) by simp
  qed
qed

lemma compute_rewards_length:
  "compute_rewards ext self tsk responses tn = Inr rewards \<Longrightarrow> length rewards = length responses"
  by (auto simp: compute_rewards_def Let_def split: sum.splits dest!: accumulate_length)

text \<open>
  Claim C2. Whenever \<open>compute_rewards\<close> returns a reward vector and some masking
  function answers 0 at index \<open>i\<close> of the batch, the returned vector holds 0 at index
  \<open>i\<close>, whatever the weights, the weighted scores and the penalties are.
\<close>

theorem compute_rewards_mask_zero:
  assumes "compute_rewards ext self tsk responses tn = Inr rewards"
      and "m \<in> set (masking_functions self)"
      and "i < length responses"
      and "i < length (reward_apply ext m (base_text tsk) responses tn)"
      and "reward_apply ext m (base_text tsk) responses tn ! i = 0"
    shows "rewards ! i = 0"
proof -
  from assms(1) obtain r1 r2 where
    w: "accumulate (+) (replicate (length responses) 0)
          (map (\<lambda>(weight_i, reward_fn_i).
                  map ((*) weight_i) (reward_apply ext reward_fn_i (base_text tsk) responses tn))
             (zip (reward_weights self) (reward_functions self))) = Inr r1" and
    m: "accumulate (*) r1
          (map (\<lambda>masking_fn_i. reward_apply ext masking_fn_i (base_text tsk) responses tn)
             (masking_functions self)) = Inr r2" and
    p: "accumulate (*) r2
          (map (\<lambda>penalty_fn_i. snd (snd (apply_penalties ext penalty_fn_i responses tsk)))
             (penalty_functions self)) = Inr rewards"
    by (auto simp: compute_rewards_def Let_def split: sum.splits)
  have l1: "length r1 = length responses" using accumulate_length [OF w] by simp
  have l2: "length r2 = length responses" using accumulate_length [OF m] l1 by simp
  have "reward_apply ext m (base_text tsk) responses tn
          \<in> set (map (\<lambda>masking_fn_i. reward_apply ext masking_fn_i (base_text tsk) responses tn)
                   (masking_functions self))"
    using assms(2) by simp
  from accumulate_mult_mask [OF m this _ assms(4,5)] have "r2 ! i = 0"
    using l1 assms(3) by simp
  then show ?thesis using accumulate_mult_zero [OF p] l2 assms(3) by simp
qed

theorem compute_rewards_mask_zero_witness:
  "compute_rewards scenario_B_ext scenario_B_neuron demo_task
     (dendrite scenario_B_ext [''axon0'', ''axon1'', ''axon2'']) (task_name demo_task) =
     Inr [1 / 2, 0, 1 / 2] \<and>
   Blacklist \<in> set (masking_functions scenario_B_neuron) \<and>
   (1 :: nat) < length (dendrite scenario_B_ext [''axon0'', ''axon1'', ''axon2'']) \<and>
   reward_apply scenario_B_ext Blacklist (base_text demo_task)
     (dendrite scenario_B_ext [''axon0'', ''axon1'', ''axon2'']) (task_name demo_task) = [1, 0, 1] \<and>
   [1 / 2, 0, 1 / 2 :: real] ! 1 = 0"
proof -
  let ?rs = "dendrite scenario_B_ext [''axon0'', ''axon1'', ''axon2'']"
  have c: "compute_rewards scenario_B_ext scenario_B_neuron demo_task ?rs (task_name demo_task) =
             Inr [1 / 2, 0, 1 / 2]"
    by code_simp
  have m: "Blacklist \<in> set (masking_functions scenario_B_neuron)" by code_simp
  have l: "(1 :: nat) < length ?rs" by code_simp
  have v: "reward_apply scenario_B_ext Blacklist (base_text demo_task) ?rs (task_name demo_task) =
             [1, 0, 1]"
    by code_simp
  have "[1 / 2, 0, 1 / 2 :: real] ! 1 = 0"
    using compute_rewards_mask_zero [OF c m l] v by simp
  with c m l v show ?thesis by simp
qed

subsection \<open>Scatter and the moving average\<close>

lemma fold_update_length:
  "length (fold (\<lambda>(i, v) t. t[i := v]) ps s) = length s"
  by (induction ps arbitrary: s) (auto split: prod.splits)

lemma fold_update_other:
  "p \<notin> fst ` set ps \<Longrightarrow> fold (\<lambda>(i, v) t. t[i := v]) ps s ! p = s ! p"
  by (induction ps arbitrary: s) (auto split: prod.splits)

lemma fold_update_at:
  "distinct (map fst ps) \<Longrightarrow> j < length ps \<Longrightarrow> fst (ps ! j) < length s \<Longrightarrow>
   fold (\<lambda>(i, v) t. t[i := v]) ps s ! fst (ps ! j) = snd (ps ! j)"
proof (induction ps arbitrary: s j)
  case Nil
  then show ?case by simp
next
  case (Cons q ps)
  obtain i v where q: "q = (i, v)" by (cases q)
  show ?case
  proof (cases j)
    case 0
    have "i \<notin> fst ` set ps" using Cons.prems(1) q by auto
    then have "fold (\<lambda>(i, v) t. t[i := v]) ps (s[i := v]) ! i = s[i := v] ! i"
      by (rule fold_update_other)
    then show ?thesis using 0 q Cons.prems(3) by simp
  next
    case (Suc j')
    then show ?thesis using Cons.IH [of j' "s[i := v]"] Cons.prems q by simp
  qed
qed

lemma scatter_Inr_iff:
  "(\<exists>t. scatter s idx src = Inr t) \<longleftrightarrow> (length idx \<le> length src \<and> (\<forall>u \<in> set idx. u < length s))"
  by (auto simp: scatter_def list_ex_iff not_le not_less)

lemma scatter_length: "scatter s idx src = Inr t \<Longrightarrow> length t = length s"
  by (auto simp: scatter_def fold_update_length split: if_splits)

lemma scatter_other: "scatter s idx src = Inr t \<Longrightarrow> p \<notin> set idx \<Longrightarrow> t ! p = s ! p"
proof -
  assume a: "scatter s idx src = Inr t" and p: "p \<notin> set idx"
  have "fst ` set (zip idx src) \<subseteq> set idx" by (auto dest: set_zip_leftD)
  with p have "p \<notin> fst ` set (zip idx src)" by blast
  from fold_update_other [OF this] a show ?thesis
    by (auto simp: scatter_def split: if_splits)
qed

lemma scatter_at:
  assumes "scatter s idx src = Inr t" "distinct idx" "j < length idx"
  shows "t ! (idx ! j) = src ! j"
proof -
  from assms(1) have len: "length idx \<le> length src" and bnd: "\<forall>u \<in> set idx. u < length s"
    and t: "t = fold (\<lambda>(i, v) t. t[i := v]) (zip idx src) s"
    by (auto simp: scatter_def list_ex_iff not_le split: if_splits)
  have m: "map fst (zip idx src) = idx" using len by (simp add: map_fst_zip_take)
  have "distinct (map fst (zip idx src))" using m assms(2) by simp
  moreover have "j < length (zip idx src)" using len assms(3) by simp
  moreover have "fst (zip idx src ! j) < length s" using bnd len assms(3) by simp
  ultimately have "fold (\<lambda>(i, v) t. t[i := v]) (zip idx src) s ! fst (zip idx src ! j)
                   = snd (zip idx src ! j)"
    by (rule fold_update_at)
  then show ?thesis using t len assms(3) by simp
qed

lemma update_scores_Inr_iff:
  "(\<exists>t. update_scores alpha scores uids rewards = Inr t) \<longleftrightarrow>
   (length uids \<le> length rewards \<and> (\<forall>u \<in> set uids. u < length scores))"
  using scatter_Inr_iff [of scores uids rewards]
  by (auto simp: update_scores_def split: sum.splits)

lemma update_scores_length:
  "update_scores alpha scores uids rewards = Inr t \<Longrightarrow> length t = length scores"
  by (auto simp: update_scores_def split: sum.splits dest: scatter_length)

lemma update_scores_unqueried:
  assumes "update_scores alpha scores uids rewards = Inr t" "p < length scores" "p \<notin> set uids"
  shows "t ! p = scores ! p"
proof -
  from assms(1) obtain sc where sc: "scatter scores uids rewards = Inr sc"
    and t: "t = map2 (\<lambda>s m. alpha * s + (1 - alpha) * m) sc scores"
    by (auto simp: update_scores_def split: sum.splits)
  have "length sc = length scores" using sc by (rule scatter_length)
  moreover have "sc ! p = scores ! p" using sc assms(3) by (rule scatter_other)
  ultimately show ?thesis using t assms(2) by (simp add: algebra_simps)
qed

lemma update_scores_queried:
  assumes "update_scores alpha scores uids rewards = Inr t" "distinct uids" "j < length uids"
  shows "t ! (uids ! j) = alpha * rewards ! j + (1 - alpha) * scores ! (uids ! j)"
proof -
  from assms(1) obtain sc where sc: "scatter scores uids rewards = Inr sc"
    and t: "t = map2 (\<lambda>s m. alpha * s + (1 - alpha) * m) sc scores"
    by (auto simp: update_scores_def split: sum.splits)
  have len: "length sc = length scores" using sc by (rule scatter_length)
  have "uids ! j < length scores"
    using scatter_Inr_iff [of scores uids rewards] sc assms(3) by auto
  moreover have "sc ! (uids ! j) = rewards ! j" using sc assms(2,3) by (rule scatter_at)
  ultimately show ?thesis using t len by simp
qed

lemma update_rounds_unqueried:
  "update_rounds alpha scores rounds = Inr t \<Longrightarrow> p < length scores \<Longrightarrow>
   \<forall>rd \<in> set rounds. p \<notin> set (fst rd) \<Longrightarrow> t ! p = scores ! p"
proof (induction rounds arbitrary: scores)
  case Nil
  then show ?case by simp
next
  case (Cons rd rounds)
  obtain uids rewards where rd: "rd = (uids, rewards)" by (cases rd)
  from Cons.prems(1) rd obtain s1 where
    u: "update_scores alpha scores uids rewards = Inr s1" and
    r: "update_rounds alpha s1 rounds = Inr t"
    by (auto split: sum.splits)
  have l: "length s1 = length scores" using u by (rule update_scores_length)
  have "s1 ! p = scores ! p"
    using u Cons.prems(2) by (rule update_scores_unqueried) (use Cons.prems(3) rd in simp)
  moreover have "t ! p = s1 ! p"
    using Cons.IH [OF r] l Cons.prems(2,3) by simp
  ultimately show ?case by simp
qed


subsection \<open>Sampling\<close>

lemma length_draw: "length (draw rs pool k) = k"
  by (induction k arbitrary: rs pool) (auto simp: Let_def)

lemma draw_pick_less:
  "pool \<noteq> [] \<Longrightarrow> (case rs of [] \<Rightarrow> 0 | r # _ \<Rightarrow> r mod length pool) < length pool"
  by (cases rs) auto

lemma set_remove_nth:
  "j < length pool \<Longrightarrow> set (take j pool @ drop (Suc j) pool) \<subseteq> set pool"
  by (auto dest: in_set_takeD in_set_dropD)

lemma distinct_remove_nth:
  assumes "distinct pool" "j < length pool"
  shows "distinct (take j pool @ drop (Suc j) pool) \<and> pool ! j \<notin> set (take j pool @ drop (Suc j) pool)"
proof -
  have "pool = take j pool @ pool ! j # drop (Suc j) pool"
    using assms(2) by (rule id_take_nth_drop)
  then have "distinct (take j pool @ pool ! j # drop (Suc j) pool)"
    using assms(1) by simp
  then show ?thesis by auto
qed

lemma set_draw: "k \<le> length pool \<Longrightarrow> set (draw rs pool k) \<subseteq> set pool"
proof (induction k arbitrary: rs pool)
  case 0
  then show ?case by simp
next
  case (Suc k)
  let ?j = "case rs of [] \<Rightarrow> 0 | r # _ \<Rightarrow> r mod length pool"
  let ?pool' = "take ?j pool @ drop (Suc ?j) pool"
  have ne: "pool \<noteq> []" using Suc.prems by auto
  have j: "?j < length pool" using ne by (rule draw_pick_less)
  have "k \<le> length ?pool'" using Suc.prems j by simp
  then have "set (draw (tl rs) ?pool' k) \<subseteq> set ?pool'" by (rule Suc.IH)
  also have "\<dots> \<subseteq> set pool" using j by (rule set_remove_nth)
  finally show ?case using j by (simp add: Let_def)
qed

lemma distinct_draw: "k \<le> length pool \<Longrightarrow> distinct pool \<Longrightarrow> distinct (draw rs pool k)"
proof (induction k arbitrary: rs pool)
  case 0
  then show ?case by simp
next
  case (Suc k)
  let ?j = "case rs of [] \<Rightarrow> 0 | r # _ \<Rightarrow> r mod length pool"
  let ?pool' = "take ?j pool @ drop (Suc ?j) pool"
  have ne: "pool \<noteq> []" using Suc.prems by auto
  have j: "?j < length pool" using ne by (rule draw_pick_less)
  have k: "k \<le> length ?pool'" using Suc.prems j by simp
  have d: "distinct ?pool'" and nin: "pool ! ?j \<notin> set ?pool'"
    using distinct_remove_nth [OF Suc.prems(2) j] by simp_all
  have "distinct (draw (tl rs) ?pool' k)" using k d by (rule Suc.IH)
  moreover have "pool ! ?j \<notin> set (draw (tl rs) ?pool' k)"
    using set_draw [OF k, of "tl rs"] nin by blast
  ultimately show ?case by (simp add: Let_def)
qed

lemma set_draw_all:
  assumes "distinct pool"
  shows "set (draw rs pool (length pool)) = set pool"
proof -
  have s: "set (draw rs pool (length pool)) \<subseteq> set pool" by (rule set_draw) simp
  have "card (set (draw rs pool (length pool))) = length pool"
    using distinct_draw [of "length pool" pool rs] assms
    by (simp add: distinct_card length_draw)
  moreover have "card (set pool) = length pool" using assms by (rule distinct_card)
  ultimately show ?thesis using s by (simp add: card_subset_eq)
qed

subsection \<open>Sampling returns distinct, eligible uids\<close>

lemma candidate_uids_props:
  "distinct (candidate_uids ext self exclude)"
  "set (candidate_uids ext self exclude) =
     {uid. uid < n_item (metagraph self) \<and>
           check_uid_availability ext (metagraph self) uid (vpermit_tao_limit (config self)) \<and>
           (case exclude of None \<Rightarrow> True | Some ex \<Rightarrow> int uid \<notin> set ex)}"
  by (auto simp: candidate_uids_def)

lemma get_random_uids_draw:
  assumes "0 \<le> k"
  shows "get_random_uids ext self k exclude =
           Inr (draw (randbelow ext) (candidate_uids ext self exclude)
                  (min (nat k) (length (candidate_uids ext self exclude))))"
proof (cases "candidate_uids ext self exclude = []")
  case True
  then show ?thesis by (simp add: get_random_uids_def)
next
  case False
  show ?thesis
  proof (cases "int (length (candidate_uids ext self exclude)) < k")
    case True
    then have "min (nat k) (length (candidate_uids ext self exclude)) =
               length (candidate_uids ext self exclude)" by simp
    with True False show ?thesis
      by (simp add: get_random_uids_def random_sample_def Let_def)
  next
    case f: False
    then have "min (nat k) (length (candidate_uids ext self exclude)) = nat k"
      using assms by simp
    with f False assms show ?thesis
      by (simp add: get_random_uids_def random_sample_def Let_def)
  qed
qed

text \<open>
  Claim C4. For every metagraph, every \<open>k \<ge> 0\<close> and every exclusion list,
  \<open>get_random_uids\<close> returns at most \<open>k\<close> uids, without repetition, each a uid of the
  metagraph that passes the availability check under \<open>vpermit_tao_limit\<close> and is not
  excluded; and when fewer than \<open>k\<close> uids are candidates, it returns exactly the
  candidates, each once.
\<close>

theorem get_random_uids_sound:
  assumes "0 \<le> k"
  shows "\<exists>uids. get_random_uids ext self k exclude = Inr uids \<and>
           int (length uids) \<le> k \<and> distinct uids \<and>
           (\<forall>uid \<in> set uids.
              uid < n_item (metagraph self) \<and>
              check_uid_availability ext (metagraph self) uid (vpermit_tao_limit (config self)) \<and>
              (case exclude of None \<Rightarrow> True | Some ex \<Rightarrow> int uid \<notin> set ex)) \<and>
           (int (length (candidate_uids ext self exclude)) < k \<longrightarrow>
              set uids =
                {uid. uid < n_item (metagraph self) \<and>
                      check_uid_availability ext (metagraph self) uid
                        (vpermit_tao_limit (config self)) \<and>
                      (case exclude of None \<Rightarrow> True | Some ex \<Rightarrow> int uid \<notin> set ex)} \<and>
              length uids = length (candidate_uids ext self exclude))"
proof -
  let ?c = "candidate_uids ext self exclude"
  let ?m = "min (nat k) (length ?c)"
  let ?u = "draw (randbelow ext) ?c ?m"
  have eq: "get_random_uids ext self k exclude = Inr ?u"
    using assms by (rule get_random_uids_draw)
  have len: "length ?u = ?m" by (rule length_draw)
  have sub: "set ?u \<subseteq> set ?c" by (rule set_draw) simp
  have dis: "distinct ?u" by (rule distinct_draw) (simp_all add: candidate_uids_props(1))
  have all: "int (length ?c) < k \<longrightarrow> set ?u = set ?c \<and> length ?u = length ?c"
  proof
    assume "int (length ?c) < k"
    then have m: "?m = length ?c" by simp
    show "set ?u = set ?c \<and> length ?u = length ?c"
      unfolding m using set_draw_all [OF candidate_uids_props(1)] length_draw by simp
  qed
  have "int (length ?u) \<le> k" using len assms by simp
  moreover have "\<forall>uid \<in> set ?u.
              uid < n_item (metagraph self) \<and>
              check_uid_availability ext (metagraph self) uid (vpermit_tao_limit (config self)) \<and>
              (case exclude of None \<Rightarrow> True | Some ex \<Rightarrow> int uid \<notin> set ex)"
    using sub candidate_uids_props(2) [of ext self exclude] by blast
  ultimately show ?thesis
    using eq dis all unfolding candidate_uids_props(2) [of ext self exclude, symmetric]
    by blast
qed


theorem get_random_uids_sound_witness:
  "(0 :: int) \<le> 3 \<and>
   get_random_uids demo_ext demo_neuron 3 (Some [1]) = Inr [4, 0, 2] \<and>
   candidate_uids demo_ext demo_neuron (Some [1]) = [0, 2, 3, 4] \<and>
   get_random_uids demo_ext demo_neuron 7 (Some [1]) = Inr [4, 0, 2, 3]"
proof -
  have k: "(0 :: int) \<le> 3" by simp
  have a: "get_random_uids demo_ext demo_neuron 3 (Some [1]) = Inr [4, 0, 2]" by code_simp
  have b: "candidate_uids demo_ext demo_neuron (Some [1]) = [0, 2, 3, 4]" by code_simp
  have c: "get_random_uids demo_ext demo_neuron 7 (Some [1]) = Inr [4, 0, 2, 3]" by code_simp
  show ?thesis
    using get_random_uids_sound [OF k, of demo_ext demo_neuron "Some [1]"] k a b c by simp
qed

subsection \<open>The trust ledger\<close>

text \<open>
  Claim C1, as the specification states it, does not hold. The rewards are scattered
  into a copy of the current scores, not into zeros: with scores \<open>[1, 1]\<close>, uid 0 queried
  with reward 0 and alpha one half, the peer that was not queried keeps the score 1,
  where the specification's formula gives one half; after this one round its score is
  not \<open>(1 - alpha)\<close> times what it was.
\<close>

theorem update_scores_not_spec_update:
  "update_scores (1 / 2) [1, 1] [0] [0] = Inr [1 / 2, 1] \<and>
   spec_update_scores (1 / 2) [1, 1] [0] [0] = Inr [1 / 2, 1 / 2] \<and>
   update_scores (1 / 2) [1, 1] [0] [0] \<noteq> spec_update_scores (1 / 2) [1, 1] [0] [0] \<and>
   update_rounds (1 / 2) [1, 1] [([0], [0])] = Inr [1 / 2, 1] \<and>
   [1 / 2, 1 :: real] ! 1 \<noteq> (1 - 1 / 2) ^ 1 * [1, 1] ! 1"
  by (simp add: update_scores_def spec_update_scores_def scatter_def)

text \<open>
  Claim C1, amended. An update returns new scores exactly when there is a reward for
  every queried uid and every queried uid is a position of the scores. The new scores
  have the length of the old ones; at a queried position (the uids being distinct) the
  new score is alpha times the peer's reward plus \<open>(1 - alpha)\<close> times its previous score;
  at every position that was not queried the new score equals the previous score.
  Consequently a peer that is not queried in any of N consecutive rounds has, after
  them, the score it had before.
\<close>

theorem update_scores_moving_average:
  "((\<exists>t. update_scores alpha scores uids rewards = Inr t) \<longleftrightarrow>
      (length uids \<le> length rewards \<and> (\<forall>u \<in> set uids. u < length scores))) \<and>
   (\<forall>t. update_scores alpha scores uids rewards = Inr t \<longrightarrow>
      length t = length scores \<and>
      (distinct uids \<longrightarrow>
         (\<forall>j < length uids. t ! (uids ! j) = alpha * rewards ! j + (1 - alpha) * scores ! (uids ! j))) \<and>
      (\<forall>p < length scores. p \<notin> set uids \<longrightarrow> t ! p = scores ! p)) \<and>
   (\<forall>t p. update_rounds alpha scores rounds = Inr t \<longrightarrow> p < length scores \<longrightarrow>
      (\<forall>rd \<in> set rounds. p \<notin> set (fst rd)) \<longrightarrow> t ! p = scores ! p)"
  using update_scores_Inr_iff [of alpha scores uids rewards]
    update_scores_length [of alpha scores uids rewards]
    update_scores_queried [of alpha scores uids rewards]
    update_scores_unqueried [of alpha scores uids rewards]
    update_rounds_unqueried [of alpha scores rounds]
  by blast

theorem update_scores_moving_average_witness:
  "update_scores (1 / 2) [1, 1, 1] [2, 0] [0, 1 / 2] = Inr [3 / 4, 1, 1 / 2] \<and>
   update_rounds (1 / 2) [1, 1, 1] [([2, 0], [0, 1 / 2]), ([0], [1])] = Inr [7 / 8, 1, 1 / 2] \<and>
   [7 / 8, 1, 1 / 2 :: real] ! 1 = [1, 1, 1] ! 1"
proof -
  have a: "update_scores (1 / 2) [1, 1, 1] [2, 0] [0, 1 / 2] = Inr [3 / 4, 1, 1 / 2]"
    by (simp add: update_scores_def scatter_def)
  have b: "update_rounds (1 / 2) [1, 1, 1] [([2, 0], [0, 1 / 2]), ([0], [1])] = Inr [7 / 8, 1, 1 / 2]"
    by (simp add: update_scores_def scatter_def)
  have "[7 / 8, 1, 1 / 2 :: real] ! 1 = [1, 1, 1] ! 1"
    using update_scores_moving_average
      [of "1 / 2" "[1, 1, 1]" "[2, 0]" "[0, 1 / 2]" "[([2, 0], [0, 1 / 2]), ([0], [1])]"] b
    by simp
  with a b show ?thesis by simp
qed

subsection \<open>Construction of the scoring pipeline\<close>

text \<open>
  Claim C3, as the specification states it, does not hold for every configuration: with
  \<open>mock_reward_models\<close> set, construction completes with no weights at all, whose sum is
  0 and not 1.
\<close>

theorem init_reward_models_mock_completes:
  "map_sum id reward_weights
     (init_reward_models (demo_neuron\<lparr>config := demo_config\<lparr>mock_reward_models := True\<rparr>\<rparr>)) = Inr [] \<and>
   sum_list ([] :: real list) \<noteq> 1"
  by (simp add: init_reward_models_def demo_neuron_def demo_config_def)

text \<open>
  Claim C3, amended. With \<open>mock_reward_models\<close> off, construction of the scoring pipeline
  raises exactly when the sum of the weights (the one weight, \<open>mistral_weight\<close>) is not 1,
  and when it completes the installed weights sum to 1. With \<open>mock_reward_models\<close> on,
  construction always completes, with no weighted scoring function and no weight.
\<close>

theorem init_reward_models_weights:
  "((\<exists>e. init_reward_models self = Inl e) \<longleftrightarrow>
      (\<not> mock_reward_models (config self) \<and> sum_list [mistral_weight (config self)] \<noteq> 1)) \<and>
   (\<forall>self'. init_reward_models self = Inr self' \<longrightarrow>
      (if mock_reward_models (config self)
       then reward_weights self' = [] \<and> reward_functions self' = []
       else sum_list (reward_weights self') = 1 \<and>
            length (reward_functions self') = length (reward_weights self')))"
  by (auto simp: init_reward_models_def Let_def)

theorem init_reward_models_weights_witness:
  "map_sum id reward_weights (init_reward_models demo_neuron) = Inr [1] \<and>
   init_reward_models (demo_neuron\<lparr>config := demo_config\<lparr>mistral_weight := 1 / 2\<rparr>\<rparr>) =
     Inl (Exception ''Reward function weights do not sum to 1'') \<and>
   (\<exists>e. init_reward_models (demo_neuron\<lparr>config := demo_config\<lparr>mistral_weight := 1 / 2\<rparr>\<rparr>) = Inl e)"
proof -
  have a: "map_sum id reward_weights (init_reward_models demo_neuron) = Inr [1]"
    by (simp add: init_reward_models_def demo_neuron_def demo_config_def)
  have b: "init_reward_models (demo_neuron\<lparr>config := demo_config\<lparr>mistral_weight := 1 / 2\<rparr>\<rparr>) =
     Inl (Exception ''Reward function weights do not sum to 1'')"
    by (simp add: init_reward_models_def demo_neuron_def demo_config_def)
  have "\<exists>e. init_reward_models (demo_neuron\<lparr>config := demo_config\<lparr>mistral_weight := 1 / 2\<rparr>\<rparr>) = Inl e"
    using init_reward_models_weights
      [of "demo_neuron\<lparr>config := demo_config\<lparr>mistral_weight := 1 / 2\<rparr>\<rparr>"]
    by (simp add: demo_neuron_def demo_config_def)
  with a b show ?thesis by simp
qed

subsection \<open>The epoch boundary\<close>

lemma epoch_boundary_cases:
  "epoch_boundary self io = (err, self', acts) \<Longrightarrow>
   count_list acts Checkpoint = 1 \<and>
   ((\<exists>r. checkpoint_result io = Inr r) \<longrightarrow>
    (should_set_weights io \<longrightarrow> (\<exists>ok. set_weights_result io = Inr ok) \<and> save_state_result io = None) \<longrightarrow>
    err = None \<and> prev_block self' = block_at_record io \<and>
    count_list acts (RecordHeight (block_at_record io)) = 1)"
  by (auto simp: epoch_boundary_def Let_def split: sum.splits option.splits if_splits prod.splits)

text \<open>
  Claim C6, as the specification states it, does not hold: the height is not recorded
  whatever happens to the commit. Nothing in the body of the boundary catches an
  exception, so when \<open>set_weights\<close> raises in a qualifying iteration the assignment to
  \<open>prev_block\<close> is skipped: the boundary was entered, \<open>prev_block\<close> is still 1000 and not
  the current height 1102, and the exception ends the loop.
\<close>

theorem commit_raises_height_not_recorded:
  "wallet_hotkey demo_neuron \<in> set (hotkeys (metagraph demo_neuron)) \<and>
   block_at_check demo_io_commit_raises - prev_block demo_neuron > epoch_length (config demo_neuron) \<and>
   should_set_weights demo_io_commit_raises \<and>
   iteration demo_neuron demo_io_commit_raises =
     (Some (RuntimeError ''set_weights failed''),
      demo_neuron\<lparr>moving_averaged_scores := [1 / 10, 2 / 10, 3 / 10, 0, 0]\<rparr>,
      [Forward, Checkpoint]) \<and>
   prev_block (fst (snd (iteration demo_neuron demo_io_commit_raises))) = 1000 \<and>
   prev_block (fst (snd (iteration demo_neuron demo_io_commit_raises))) \<noteq>
     block_at_record demo_io_commit_raises \<and>
   fst (run demo_neuron [demo_io_commit_raises, demo_io]) =
     Terminated (RuntimeError ''set_weights failed'')"
  by (simp add: iteration_def epoch_boundary_def should_update_def demo_io_commit_raises_def
      demo_io_def demo_neuron_def demo_config_def demo_metagraph_def)

text \<open>
  Claim C6, amended. In an iteration that passes the registration check and whose
  forwards complete, the epoch boundary is entered exactly when the block height read by
  \<open>should_update\<close> minus \<open>prev_block\<close> is greater than \<open>epoch_length\<close> (100 unless an
  override is configured), and then exactly once; otherwise \<open>prev_block\<close> stays as it is.
  When the boundary is entered and \<open>checkpoint\<close>, \<open>set_weights\<close> and \<open>save_state\<close> return,
  \<open>prev_block\<close> becomes the block height read at that moment, whether or not
  \<open>should_set_weights\<close> let the commit run and whatever success \<open>set_weights\<close> reports.
\<close>

theorem epoch_boundary_once_and_recorded:
  assumes "wallet_hotkey self \<in> set (hotkeys (metagraph self))"
      and "forward_result io = Inr scores"
      and "iteration self io = (err, self', acts)"
  shows "count_list acts Checkpoint =
           (if block_at_check io - prev_block self > epoch_length (config self) then 1 else 0) \<and>
         (\<not> block_at_check io - prev_block self > epoch_length (config self) \<longrightarrow>
            err = None \<and> prev_block self' = prev_block self) \<and>
         (block_at_check io - prev_block self > epoch_length (config self) \<longrightarrow>
          (\<exists>r. checkpoint_result io = Inr r) \<longrightarrow>
          (should_set_weights io \<longrightarrow>
             (\<exists>ok. set_weights_result io = Inr ok) \<and> save_state_result io = None) \<longrightarrow>
            err = None \<and> prev_block self' = block_at_record io \<and>
            count_list acts (RecordHeight (block_at_record io)) = 1) \<and>
         (epoch_length_override c = None \<longrightarrow> epoch_length (init_epoch_length c) = 100)"
proof -
  let ?self1 = "self\<lparr>moving_averaged_scores := scores\<rparr>"
  have d: "epoch_length_override c = None \<longrightarrow> epoch_length (init_epoch_length c) = 100"
    by (simp add: init_epoch_length_def)
  show ?thesis
  proof (cases "block_at_check io - prev_block self > epoch_length (config self)")
    case False
    then have "\<not> should_update ?self1 (block_at_check io)" by (simp add: should_update_def)
    with assms have "err = None \<and> self' = ?self1\<lparr>step := step ?self1 + 1\<rparr> \<and>
        acts = Forward # (if should_reinit_wandb io then [ReinitWandb] else [])"
      by (auto simp: iteration_def Let_def)
    with False d show ?thesis by auto
  next
    case True
    then have su: "should_update ?self1 (block_at_check io)" by (simp add: should_update_def)
    obtain e2 s2 a2 where eb: "epoch_boundary ?self1 io = (e2, s2, a2)"
      by (cases "epoch_boundary ?self1 io") auto
    from assms su eb have r: "err = e2" "prev_block self' = prev_block s2"
      "acts = Forward # a2 @ (if e2 = None \<and> should_reinit_wandb io then [ReinitWandb] else [])"
      by (auto simp: iteration_def Let_def split: option.splits)
    have c: "count_list acts Checkpoint = count_list a2 Checkpoint"
      "count_list acts (RecordHeight (block_at_record io)) =
       count_list a2 (RecordHeight (block_at_record io))"
      using r(3) by auto
    from epoch_boundary_cases [OF eb] True d r(1,2) c show ?thesis by auto
  qed
qed

theorem epoch_boundary_once_and_recorded_witness:
  "wallet_hotkey demo_neuron \<in> set (hotkeys (metagraph demo_neuron)) \<and>
   forward_result demo_io = Inr [1 / 10, 2 / 10, 3 / 10, 0, 0] \<and>
   block_at_check demo_io - prev_block demo_neuron > epoch_length (config demo_neuron) \<and>
   set_weights_result demo_io = Inr False \<and>
   fst (iteration demo_neuron demo_io) = None \<and>
   prev_block (fst (snd (iteration demo_neuron demo_io))) = 1102 \<and>
   snd (snd (iteration demo_neuron demo_io)) =
     [Forward, Checkpoint, SetWeights False, SaveState, RecordHeight 1102]"
proof -
  have h1: "wallet_hotkey demo_neuron \<in> set (hotkeys (metagraph demo_neuron))" by code_simp
  have h2: "forward_result demo_io = Inr [1 / 10, 2 / 10, 3 / 10, 0, 0]" by code_simp
  have h3: "iteration demo_neuron demo_io =
     (fst (iteration demo_neuron demo_io), fst (snd (iteration demo_neuron demo_io)),
      snd (snd (iteration demo_neuron demo_io)))" by simp
  have q: "block_at_check demo_io - prev_block demo_neuron > epoch_length (config demo_neuron)"
    by code_simp
  have c: "checkpoint_result demo_io = Inr (demo_metagraph, [1 / 10, 2 / 10, 3 / 10, 0, 0])"
    by code_simp
  have s: "set_weights_result demo_io = Inr False" by code_simp
  have v: "save_state_result demo_io = None" by code_simp
  have b: "block_at_record demo_io = 1102" by code_simp
  have a: "snd (snd (iteration demo_neuron demo_io)) =
     [Forward, Checkpoint, SetWeights False, SaveState, RecordHeight 1102]" by code_simp
  have "fst (iteration demo_neuron demo_io) = None \<and>
        prev_block (fst (snd (iteration demo_neuron demo_io))) = 1102"
  proof -
    have ex1: "\<exists>r. checkpoint_result demo_io = Inr r" using c by blast
    have ex2: "\<exists>ok. set_weights_result demo_io = Inr ok" using s by blast
    show ?thesis
      using epoch_boundary_once_and_recorded [OF h1 h2 h3] q ex1 ex2 v b by simp
  qed
  with h1 h2 q s a show ?thesis by simp
qed

subsection \<open>The registration check\<close>

lemma run_append_Running:
  "run self0 pre = (Running, self, acts0) \<Longrightarrow>
   run self0 (pre @ rest) = (case run self rest of (st, s, a) \<Rightarrow> (st, s, acts0 @ a))"
proof (induction pre arbitrary: self0 acts0)
  case Nil
  then show ?case by (auto split: prod.splits)
next
  case (Cons io pre)
  obtain e s1 a1 where it: "iteration self0 io = (e, s1, a1)"
    by (cases "iteration self0 io") auto
  show ?case
  proof (cases e)
    case (Some x)
    with it Cons.prems show ?thesis by simp
  next
    case None
    obtain st s2 a2 where r: "run s1 pre = (st, s2, a2)" by (cases "run s1 pre") auto
    with it None Cons.prems have "st = Running" "s2 = self" "acts0 = a1 @ a2" by auto
    with r have "run s1 pre = (Running, self, a2)" by simp
    from Cons.IH [OF this] it None \<open>acts0 = a1 @ a2\<close> show ?thesis
      by (auto split: prod.splits)
  qed
qed

text \<open>
  Claim C7. Whenever the loop reaches the start of an iteration with the validator's
  hotkey absent from the metagraph's hotkeys, that iteration raises, the handler around
  the loop logs the error and prints the exception with its traceback, and \<open>run\<close> ends
  there: nothing of this or any later iteration is carried out, and the neuron is left as
  it was.
\<close>

theorem unregistered_stops_run:
  assumes "run self0 pre = (Running, self, acts0)"
      and "wallet_hotkey self \<notin> set (hotkeys (metagraph self))"
  shows "run self0 (pre @ io # ios) =
           (Terminated (Exception ''Validator is not registered - hotkey not in metagraph''), self,
            acts0 @ [LogError (Exception ''Validator is not registered - hotkey not in metagraph''),
                     PrintException (Exception ''Validator is not registered - hotkey not in metagraph'')])"
proof -
  have "iteration self io =
          (Some (Exception ''Validator is not registered - hotkey not in metagraph''), self, [])"
    using assms(2) by (simp add: iteration_def)
  then show ?thesis using run_append_Running [OF assms(1), of "io # ios"] by simp
qed

theorem unregistered_stops_run_witness:
  "fst (run demo_neuron [demo_io_resync]) = Running \<and>
   wallet_hotkey (fst (snd (run demo_neuron [demo_io_resync])))
     \<notin> set (hotkeys (metagraph (fst (snd (run demo_neuron [demo_io_resync]))))) \<and>
   fst (run demo_neuron ([demo_io_resync] @ demo_io # [demo_io])) =
     Terminated (Exception ''Validator is not registered - hotkey not in metagraph'') \<and>
   snd (snd (run demo_neuron ([demo_io_resync] @ demo_io # [demo_io]))) =
     [Forward, Checkpoint, RecordHeight 1102,
      LogError (Exception ''Validator is not registered - hotkey not in metagraph''),
      PrintException (Exception ''Validator is not registered - hotkey not in metagraph'')]"
proof -
  let ?r = "run demo_neuron [demo_io_resync]"
  have st: "fst ?r = Running" by code_simp
  have h1: "?r = (Running, fst (snd ?r), snd (snd ?r))"
    using st by (metis prod.collapse)
  have h2: "wallet_hotkey (fst (snd ?r)) \<notin> set (hotkeys (metagraph (fst (snd ?r))))"
    by code_simp
  have a: "snd (snd ?r) = [Forward, Checkpoint, RecordHeight 1102]" by code_simp
  show ?thesis
    using unregistered_stops_run [OF h1 h2, of demo_io "[demo_io]"] st h2 a by simp
qed

subsection \<open>An empty sample\<close>

lemma get_random_uids_no_candidates:
  "candidate_uids ext self exclude = [] \<Longrightarrow> get_random_uids ext self k exclude = Inr []"
  by (simp add: get_random_uids_def)

text \<open>
  Claim C10. If the sample of uids of a round is empty and the dendrite, asked no axon,
  answers with no response, then \<open>run_step\<close> raises and the scores are not updated. When
  the aggregation returns, it returns the empty reward vector, and, the gating model
  returning too, the exception is that of \<open>argmax\<close> on an empty tensor. A round with no
  candidate uid has an empty sample.
\<close>

theorem run_step_empty_sample_raises:
  assumes "get_random_uids ext self k (Some exclude) = Inr []"
      and "dendrite ext [] = []"
  shows "(\<exists>e. run_step ext self tsk k exclude = Inl e) \<and>
         (\<forall>rewards. compute_rewards ext self tsk [] (task_name tsk) = Inr rewards \<longrightarrow>
            rewards = [] \<and>
            (\<forall>loss. gating ext [] [] = Inr loss \<longrightarrow>
               run_step ext self tsk k exclude =
                 Inl (IndexError ''argmax(): Expected reduction dim 0 to have non-zero size''))) \<and>
         (\<forall>k'. candidate_uids ext self (Some exclude) = [] \<longrightarrow>
            get_random_uids ext self k' (Some exclude) = Inr [])"
proof -
  have nc: "\<forall>k'. candidate_uids ext self (Some exclude) = [] \<longrightarrow>
              get_random_uids ext self k' (Some exclude) = Inr []"
    by (simp add: get_random_uids_no_candidates)
  show ?thesis
  proof (cases "compute_rewards ext self tsk [] (task_name tsk)")
    case (Inl e)
    with assms nc show ?thesis
      by (simp add: run_step_def restrict_format_followup_responses_def)
  next
    case (Inr rewards)
    then have "length rewards = length ([] :: response list)" by (rule compute_rewards_length)
    then have "rewards = []" by simp
    with Inr assms nc show ?thesis
      by (cases "gating ext [] []")
        (simp_all add: run_step_def restrict_format_followup_responses_def argmax_def)
  qed
qed

theorem run_step_empty_sample_raises_witness:
  "get_random_uids (demo_ext\<lparr>check_uid_availability := (\<lambda>mg uid limit. False)\<rparr>)
     demo_neuron 3 (Some []) = Inr [] \<and>
   dendrite (demo_ext\<lparr>check_uid_availability := (\<lambda>mg uid limit. False)\<rparr>) [] = [] \<and>
   compute_rewards (demo_ext\<lparr>check_uid_availability := (\<lambda>mg uid limit. False)\<rparr>)
     demo_neuron demo_task [] (task_name demo_task) = Inr [] \<and>
   gating (demo_ext\<lparr>check_uid_availability := (\<lambda>mg uid limit. False)\<rparr>) [] [] = Inr 0 \<and>
   run_step (demo_ext\<lparr>check_uid_availability := (\<lambda>mg uid limit. False)\<rparr>)
     demo_neuron demo_task 3 [] =
     Inl (IndexError ''argmax(): Expected reduction dim 0 to have non-zero size'')"
proof -
  let ?ext = "demo_ext\<lparr>check_uid_availability := (\<lambda>mg uid limit. False)\<rparr>"
  have g: "get_random_uids ?ext demo_neuron 3 (Some []) = Inr []" by code_simp
  have d: "dendrite ?ext [] = []" by code_simp
  have c: "compute_rewards ?ext demo_neuron demo_task [] (task_name demo_task) = Inr []"
    by code_simp
  have l: "gating ?ext [] [] = Inr 0" by code_simp
  show ?thesis
    using run_step_empty_sample_raises [OF g d, of demo_task] g d c l by simp
qed

subsection \<open>Scenario A\<close>

lemma argmax_scenario_A: "argmax [2 / 10, 4 / 10, 6 / 10] = Inr 2"
  by (simp add: argmax_def)

lemma map2_mult_ones: "map2 (*) r (replicate (length r) (1 :: real)) = r"
  by (induction r) auto

lemma accumulate_mult_ones:
  "\<forall>v \<in> set vs. v = replicate (length r) 1 \<Longrightarrow> accumulate (*) r vs = Inr r"
  by (induction vs) (auto simp: inplace_def map2_mult_ones)

text \<open>
  Claim C8. In a metagraph of 5 peers, all available, with all scores 0, a sample size
  of 3, one weighted scoring function of weight 1 that answers \<open>[0.2, 0.4, 0.6]\<close> for the
  three responses, masking and penalty functions, however many, without effect (each
  answers 1 for each of the three responses), a dendrite that answers every axon, a
  gating model that returns, and alpha one half, one round step returns, whatever
  three uids are sampled, with the scores \<open>[0.1, 0.2, 0.3]\<close> at the sampled positions, in
  the order of the sample, and 0 at the two other positions.
\<close>

theorem scenario_A:
  assumes mg: "n_item (metagraph self) = 5" "length (axons (metagraph self)) = 5"
      and av: "\<forall>uid < 5. check_uid_availability ext (metagraph self) uid (vpermit_tao_limit (config self))"
      and fn: "reward_weights self = [1]" "reward_functions self = [f]"
      and out: "\<forall>rs. length rs = 3 \<longrightarrow>
                  reward_apply ext f (base_text tsk) rs (task_name tsk) = [2 / 10, 4 / 10, 6 / 10]"
      and mk: "\<forall>m \<in> set (masking_functions self). \<forall>rs. length rs = 3 \<longrightarrow>
                  reward_apply ext m (base_text tsk) rs (task_name tsk) = [1, 1, 1]"
      and pn: "\<forall>p \<in> set (penalty_functions self). \<forall>rs. length rs = 3 \<longrightarrow>
                  snd (snd (apply_penalties ext p rs tsk)) = [1, 1, 1]"
      and den: "\<forall>axs. length (dendrite ext axs) = length axs"
      and gt: "\<forall>us rs. \<exists>loss. gating ext us rs = Inr loss"
      and sc: "moving_averaged_scores self = replicate 5 0"
      and al: "moving_average_alpha (config self) = 1 / 2"
  shows "\<exists>ev self'. run_step ext self tsk 3 [] = Inr (ev, self') \<and>
           length (event_uids ev) = 3 \<and> distinct (event_uids ev) \<and>
           (\<forall>uid \<in> set (event_uids ev). uid < 5) \<and>
           event_rewards ev = [2 / 10, 4 / 10, 6 / 10] \<and>
           length (moving_averaged_scores self') = 5 \<and>
           (\<forall>j < 3. moving_averaged_scores self' ! (event_uids ev ! j) = [1 / 10, 2 / 10, 3 / 10] ! j) \<and>
           (\<forall>p < 5. p \<notin> set (event_uids ev) \<longrightarrow> moving_averaged_scores self' ! p = 0)"
proof -
  have cands: "candidate_uids ext self (Some []) = [0 ..< 5]"
    using mg(1) av by (simp add: candidate_uids_def)
  define uids where "uids = draw (randbelow ext) [0 ..< 5] 3"
  have g: "get_random_uids ext self 3 (Some []) = Inr uids"
    using get_random_uids_draw [of 3 ext self "Some []"] cands by (simp add: uids_def)
  have l: "length uids = 3" by (simp only: uids_def length_draw)
  have d: "distinct uids" unfolding uids_def by (rule distinct_draw) simp_all
  have "set uids \<subseteq> set [0 ..< 5]" unfolding uids_def by (rule set_draw) simp
  then have b: "\<forall>uid \<in> set uids. uid < 5" by auto
  let ?responses0 = "dendrite ext (map (\<lambda>uid. axons (metagraph self) ! uid) uids)"
  let ?responses = "restrict_format_followup_responses ?responses0 (task_name tsk)"
  let ?rewards = "[2 / 10, 4 / 10, 6 / 10] :: real list"
  have lr: "length ?responses = 3"
    using den l by (simp add: restrict_format_followup_responses_def)
  have ax: "\<not> list_ex (\<lambda>uid. length (axons (metagraph self)) \<le> uid) uids"
    using b mg(2) by (auto simp: list_ex_iff)
  have wt: "accumulate (+) (replicate (length ?responses) 0)
              (map (\<lambda>(weight_i, reward_fn_i).
                      map ((*) weight_i)
                        (reward_apply ext reward_fn_i (base_text tsk) ?responses (task_name tsk)))
                 (zip (reward_weights self) (reward_functions self))) = Inr ?rewards"
    using out lr fn by (simp add: inplace_def numeral_3_eq_3)
  have ms: "accumulate (*) ?rewards
              (map (\<lambda>masking_fn_i.
                      reward_apply ext masking_fn_i (base_text tsk) ?responses (task_name tsk))
                 (masking_functions self)) = Inr ?rewards"
    by (rule accumulate_mult_ones) (use mk lr in \<open>auto simp: numeral_3_eq_3\<close>)
  have ps: "accumulate (*) ?rewards
              (map (\<lambda>penalty_fn_i. snd (snd (apply_penalties ext penalty_fn_i ?responses tsk)))
                 (penalty_functions self)) = Inr ?rewards"
    by (rule accumulate_mult_ones) (use pn lr in \<open>auto simp: numeral_3_eq_3\<close>)
  have cr: "compute_rewards ext self tsk ?responses (task_name tsk) = Inr ?rewards"
    unfolding compute_rewards_def Let_def wt sum.case ms ps ..
  have "\<exists>t. update_scores (1 / 2) (replicate 5 0) uids ?rewards = Inr t"
    using update_scores_Inr_iff [of "1 / 2" "replicate 5 0" uids ?rewards] l b by simp
  then obtain t where u: "update_scores (1 / 2) (replicate 5 0) uids ?rewards = Inr t" ..
  have lt: "length t = 5" using update_scores_length [OF u] by simp
  have q: "\<forall>j < 3. t ! (uids ! j) = [1 / 10, 2 / 10, 3 / 10] ! j"
  proof (intro allI impI)
    fix j :: nat assume j: "j < 3"
    then have "uids ! j < 5" using b l by simp
    moreover have "t ! (uids ! j) = 1 / 2 * ?rewards ! j + (1 - 1 / 2) * replicate 5 0 ! (uids ! j)"
      using update_scores_queried [OF u d] j l by simp
    moreover from j have "j = 0 \<or> j = 1 \<or> j = 2" by auto
    ultimately show "t ! (uids ! j) = [1 / 10, 2 / 10, 3 / 10] ! j" by auto
  qed
  have nq: "\<forall>p < 5. p \<notin> set uids \<longrightarrow> t ! p = 0"
    using update_scores_unqueried [OF u] by simp
  obtain loss where gl: "gating ext uids ?rewards = Inr loss" using gt by blast
  have rs: "run_step ext self tsk 3 [] =
          Inr (\<lparr>event_uids = uids, event_completions = map completion ?responses,
                event_rewards = ?rewards, event_gating_loss = loss,
                event_best = str_strip whitespace (map completion ?responses ! 2)\<rparr>,
               self\<lparr>moving_averaged_scores := t\<rparr>)"
    unfolding run_step_def Let_def sc al
    using g ax cr gl argmax_scenario_A u lr by simp
  show ?thesis
    using rs l d b lt q nq by simp
qed

theorem scenario_A_witness:
  "init_reward_models demo_neuron = Inr demo_pipeline \<and>
   masking_functions demo_pipeline = [Blacklist, NSFWRewardModel] \<and>
   length (penalty_functions demo_pipeline) = 3 \<and>
   map_sum id (\<lambda>(ev, self'). (event_uids ev, event_rewards ev, moving_averaged_scores self'))
     (run_step demo_ext demo_pipeline demo_task 3 []) =
   Inr ([2, 0, 4], [2 / 10, 4 / 10, 6 / 10], [2 / 10, 0, 1 / 10, 0, 3 / 10])"
proof -
  have i: "init_reward_models demo_neuron = Inr demo_pipeline"
    by (simp add: init_reward_models_def demo_pipeline_def demo_neuron_def demo_config_def)
  have r: "map_sum id (\<lambda>(ev, self'). (event_uids ev, event_rewards ev, moving_averaged_scores self'))
     (run_step demo_ext demo_pipeline demo_task 3 []) =
     Inr ([2, 0, 4], [2 / 10, 4 / 10, 6 / 10], [2 / 10, 0, 1 / 10, 0, 3 / 10])"
    by code_simp
  have mg: "n_item (metagraph demo_pipeline) = 5" "length (axons (metagraph demo_pipeline)) = 5"
    by code_simp+
  have av: "\<forall>uid < 5. check_uid_availability demo_ext (metagraph demo_pipeline) uid
              (vpermit_tao_limit (config demo_pipeline))"
    by (simp add: demo_ext_def)
  have fn: "reward_weights demo_pipeline = [1]"
    "reward_functions demo_pipeline = [MistralRewardModel]"
    by (simp_all add: demo_pipeline_def)
  have out: "\<forall>rs. length rs = 3 \<longrightarrow>
      reward_apply demo_ext MistralRewardModel (base_text demo_task) rs (task_name demo_task) =
      [2 / 10, 4 / 10, 6 / 10]"
    by (simp add: demo_ext_def)
  have mk: "\<forall>m \<in> set (masking_functions demo_pipeline). \<forall>rs. length rs = 3 \<longrightarrow>
      reward_apply demo_ext m (base_text demo_task) rs (task_name demo_task) = [1, 1, 1]"
    by (simp add: demo_ext_def demo_pipeline_def numeral_3_eq_3)
  have pn: "\<forall>p \<in> set (penalty_functions demo_pipeline). \<forall>rs. length rs = 3 \<longrightarrow>
      snd (snd (apply_penalties demo_ext p rs demo_task)) = [1, 1, 1]"
    by (simp add: demo_ext_def demo_pipeline_def numeral_3_eq_3)
  have den: "\<forall>axs. length (dendrite demo_ext axs) = length axs"
    by (simp add: demo_ext_def)
  have gt: "\<forall>us rs. \<exists>loss. gating demo_ext us rs = Inr loss"
    by (simp add: demo_ext_def)
  have sc: "moving_averaged_scores demo_pipeline = replicate 5 0"
    by (simp add: demo_pipeline_def demo_neuron_def eval_nat_numeral)
  have al: "moving_average_alpha (config demo_pipeline) = 1 / 2"
    by (simp add: demo_pipeline_def demo_neuron_def demo_config_def)
  have ms: "masking_functions demo_pipeline = [Blacklist, NSFWRewardModel]"
    "length (penalty_functions demo_pipeline) = 3"
    by (simp_all add: demo_pipeline_def)
  have "\<exists>ev self'. run_step demo_ext demo_pipeline demo_task 3 [] = Inr (ev, self')"
    using scenario_A [OF mg av fn out mk pn den gt sc al] by blast
  with i r ms show ?thesis by simp
qed


end
